theory Spec2Isabelle
  imports Complex_Main "HOL-Library.Log_Nat"
begin

section \<open>Values exchanged with the upstream service\<close>

text \<open>
  Response bodies are opaque to the client: it hands \<open>response.data\<close> through. They are
  kept as text.
\<close>

type_synonym json = string

datatype ErrorCode = InternalError | InvalidParams | InvalidRequest

record axios_response =
  status :: nat
  data :: json

text \<open>
  What a promise can reject with. \<open>AxiosError message response\<close> is the only value for
  which \<open>axios.isAxiosError\<close> holds; its response is absent when the request never got an
  answer. \<open>McpError code message data\<close> carries the three constructor arguments.
\<close>

datatype thrown =
    AxiosError string "axios_response option"
  | McpError ErrorCode string "json option"
  | Error string

datatype http_method = GET | POST | PUT | DELETE

datatype jsval = Undefined | Str string | Num int | Bool bool

record request =
  verb :: http_method
  url :: string
  payload :: "(string \<times> jsval) list"

text \<open>
  The world outside the client object: a clock advanced by timers, the number of times a
  test double has been invoked, the admissions granted and HTTP requests sent (oldest
  first), and the configuration file on disk with the two ways writing it can fail.
\<close>

datatype event = Admission | UpstreamCall request

record world =
  clock :: nat
  invocations :: nat
  trace :: "event list"
  mkdir_ok :: bool
  writeFile_ok :: bool
  config_file :: "(string option \<times> string option) option"

section \<open>Template literals\<close>

definition digit_char :: "nat \<Rightarrow> char" where
  "digit_char d =
     (if d = 0 then CHR ''0'' else if d = 1 then CHR ''1'' else if d = 2 then CHR ''2''
      else if d = 3 then CHR ''3'' else if d = 4 then CHR ''4'' else if d = 5 then CHR ''5''
      else if d = 6 then CHR ''6'' else if d = 7 then CHR ''7'' else if d = 8 then CHR ''8''
      else CHR ''9'')"

fun string_of_nat :: "nat \<Rightarrow> string" where
  "string_of_nat n =
     (if n < 10 then [digit_char n]
      else string_of_nat (n div 10) @ [digit_char (n mod 10)])"

declare string_of_nat.simps [simp del]

text \<open>An absent string interpolates as the text \<open>undefined\<close>.\<close>

definition interpolate :: "string option \<Rightarrow> string" where
  "interpolate s = (case s of None \<Rightarrow> ''undefined'' | Some t \<Rightarrow> t)"

text \<open>
  The message of the error raised for an upstream failure:
  \<^verbatim>\<open>`Trello API Error: ${error.response?.status} ${error.message}`\<close>.
\<close>

definition api_error_message :: "axios_response option \<Rightarrow> string \<Rightarrow> string" where
  "api_error_message response msg =
     ''Trello API Error: '' @
     (case response of None \<Rightarrow> ''undefined'' | Some r \<Rightarrow> string_of_nat (status r)) @
     '' '' @ msg"

section \<open>handleRequest\<close>

text \<open>\<^verbatim>\<open>await new Promise(resolve => setTimeout(resolve, ms))\<close>: time passes.\<close>

definition setTimeout :: "nat \<Rightarrow> world \<Rightarrow> world" where
  "setTimeout ms w = w\<lparr>clock := clock w + ms\<rparr>"

text \<open>
  The operation \<open>requestFn\<close> is a closure that acts on the world and settles with a value
  (\<open>Inr\<close>) or a rejection (\<open>Inl\<close>). The source recurses on itself after a 429 with no
  counter, so the recursion need not end: the model takes fuel, one unit for each call
  of \<open>handleRequest\<close>, and answers \<open>None\<close> together with the world reached so far when the
  fuel is used up while the function is still retrying.
\<close>

fun handleRequest ::
  "nat \<Rightarrow> (world \<Rightarrow> (thrown + 'a) \<times> world) \<Rightarrow> world \<Rightarrow> (thrown + 'a) option \<times> world" where
  "handleRequest 0 requestFn w = (None, w)"
| "handleRequest (Suc fuel) requestFn w =
     (case requestFn w of
        (Inr v, w1) \<Rightarrow> (Some (Inr v), w1)
      | (Inl (AxiosError msg response), w1) \<Rightarrow>
          if map_option status response = Some 429
          then handleRequest fuel requestFn (setTimeout 1000 w1)
          else (Some (Inl (McpError InternalError (api_error_message response msg)
                             (map_option data response))), w1)
      | (Inl _, w1) \<Rightarrow>
          (Some (Inl (McpError InternalError ''An unexpected error occurred'' None)), w1))"

section \<open>The axios instance and its request interceptor\<close>

text \<open>
  Modelled from the spec: \<open>waitForAvailableToken\<close> of \<open>rate-limiter.js\<close>, which is not
  among the sources. The client only awaits it, and the spec has the caller resume once
  quota is free; what the client observes is that admission was granted, which the model
  records in the trace.
\<close>

definition waitForAvailableToken :: "world \<Rightarrow> world" where
  "waitForAvailableToken w = w\<lparr>trace := trace w @ [Admission]\<rparr>"

definition request_interceptor :: "request \<Rightarrow> world \<Rightarrow> request \<times> world" where
  "request_interceptor config w = (config, waitForAvailableToken w)"

text \<open>
  The upstream service answers a request given everything sent so far; its answer is
  what the axios promise settles with.
\<close>

type_synonym upstream = "event list \<Rightarrow> request \<Rightarrow> thrown + axios_response"

definition axiosInstance ::
  "upstream \<Rightarrow> request \<Rightarrow> world \<Rightarrow> (thrown + axios_response) \<times> world" where
  "axiosInstance srv req w =
     (case request_interceptor req w of
        (config, w1) \<Rightarrow> (srv (trace w1) config, w1\<lparr>trace := trace w1 @ [UpstreamCall config]\<rparr>))"

text \<open>
  The closures handed to \<open>handleRequest\<close> have one shape:
  \<^verbatim>\<open>async () => { const response = await this.axiosInstance.get(...); return f(response); }\<close>
  with \<open>f\<close> mostly \<open>response.data\<close>.
\<close>

definition api ::
  "upstream \<Rightarrow> request \<Rightarrow> (axios_response \<Rightarrow> 'a) \<Rightarrow> world \<Rightarrow> (thrown + 'a) \<times> world" where
  "api srv req f w =
     (case axiosInstance srv req w of
        (Inl e, w1) \<Rightarrow> (Inl e, w1)
      | (Inr response, w1) \<Rightarrow> (Inr (f response), w1))"

text \<open>
  The closures that attach a file or an image look at their argument first (a data URL
  that does not parse, a local file that does not exist) and reject before any request
  is made; then they make their one request like the others.
\<close>

definition validated ::
  "(world \<Rightarrow> thrown option) \<Rightarrow> (world \<Rightarrow> (thrown + 'a) \<times> world) \<Rightarrow> world
     \<Rightarrow> (thrown + 'a) \<times> world" where
  "validated check requestFn w =
     (case check w of Some e \<Rightarrow> (Inl e, w) | None \<Rightarrow> requestFn w)"

section \<open>The client object\<close>

text \<open>
  \<open>TrelloConfig\<close> is declared in \<open>types.js\<close>, which is not among the sources; the record
  has the fields the client reads and writes. The client object keeps the configuration
  it was constructed with, the default board id, and the active configuration.
\<close>

record TrelloConfig =
  apiKey :: string
  token :: string
  defaultBoardId :: "string option"
  boardId :: "string option"
  workspaceId :: "string option"

record TrelloClient =
  config :: TrelloConfig
  this_defaultBoardId :: "string option"
  activeConfig :: TrelloConfig

text \<open>JavaScript truthiness of \<open>string | undefined\<close>, and the operator \<open>||\<close> on it.\<close>

definition truthy :: "string option \<Rightarrow> bool" where
  "truthy s = (case s of None \<Rightarrow> False | Some t \<Rightarrow> t \<noteq> [])"

definition js_or :: "string option \<Rightarrow> string option \<Rightarrow> string option" where
  "js_or a b = (if truthy a then a else b)"

definition new_TrelloClient :: "TrelloConfig \<Rightarrow> TrelloClient" where
  "new_TrelloClient cfg =
     (let this = \<lparr>config = cfg, this_defaultBoardId = defaultBoardId cfg, activeConfig = cfg\<rparr>;
          this = (if truthy (boardId cfg) \<and> \<not> truthy (boardId (activeConfig this))
                  then this\<lparr>activeConfig := (activeConfig this)\<lparr>boardId := boardId cfg\<rparr>\<rparr>
                  else this);
          this = (if truthy (this_defaultBoardId this) \<and> \<not> truthy (boardId (activeConfig this))
                  then this\<lparr>activeConfig :=
                         (activeConfig this)\<lparr>boardId := this_defaultBoardId this\<rparr>\<rparr>
                  else this)
      in this)"

definition boardId_required :: thrown where
  "boardId_required =
     McpError InvalidParams ''boardId is required when no default board is configured'' None"

definition getBoardById ::
  "nat \<Rightarrow> upstream \<Rightarrow> string \<Rightarrow> world \<Rightarrow> (thrown + json) option \<times> world" where
  "getBoardById fuel srv bid w =
     handleRequest fuel
       (api srv \<lparr>verb = GET, url = ''/boards/'' @ bid, payload = []\<rparr> data) w"

definition getLists ::
  "nat \<Rightarrow> upstream \<Rightarrow> TrelloClient \<Rightarrow> string option \<Rightarrow> world
     \<Rightarrow> (thrown + json) option \<times> world" where
  "getLists fuel srv this bid w =
     (let effectiveBoardId =
            js_or (js_or bid (boardId (activeConfig this))) (this_defaultBoardId this)
      in if \<not> truthy effectiveBoardId then (Some (Inl boardId_required), w)
         else handleRequest fuel
                (api srv \<lparr>verb = GET,
                          url = ''/boards/'' @ interpolate effectiveBoardId @ ''/lists'',
                          payload = []\<rparr> data) w)"

definition getRecentActivity ::
  "nat \<Rightarrow> upstream \<Rightarrow> TrelloClient \<Rightarrow> string option \<Rightarrow> int option \<Rightarrow> world
     \<Rightarrow> (thrown + json) option \<times> world" where
  "getRecentActivity fuel srv this bid limit_arg w =
     (let limit = (case limit_arg of None \<Rightarrow> 10 | Some l \<Rightarrow> l);
          effectiveBoardId =
            js_or (js_or bid (boardId (activeConfig this))) (this_defaultBoardId this)
      in if \<not> truthy effectiveBoardId then (Some (Inl boardId_required), w)
         else handleRequest fuel
                (api srv \<lparr>verb = GET,
                          url = ''/boards/'' @ interpolate effectiveBoardId @ ''/actions'',
                          payload = [(''limit'', Num limit)]\<rparr> data) w)"

definition addList ::
  "nat \<Rightarrow> upstream \<Rightarrow> TrelloClient \<Rightarrow> string option \<Rightarrow> string \<Rightarrow> world
     \<Rightarrow> (thrown + json) option \<times> world" where
  "addList fuel srv this bid name w =
     (let effectiveBoardId =
            js_or (js_or bid (boardId (activeConfig this))) (this_defaultBoardId this)
      in if \<not> truthy effectiveBoardId then (Some (Inl boardId_required), w)
         else handleRequest fuel
                (api srv \<lparr>verb = POST, url = ''/lists'',
                          payload = [(''name'', Str name),
                                     (''idBoard'', Str (interpolate effectiveBoardId))]\<rparr>
                   data) w)"

definition getBoardMembers ::
  "nat \<Rightarrow> upstream \<Rightarrow> TrelloClient \<Rightarrow> string option \<Rightarrow> world
     \<Rightarrow> (thrown + json) option \<times> world" where
  "getBoardMembers fuel srv this bid w =
     (let effectiveBoardId =
            js_or (js_or bid (boardId (activeConfig this))) (this_defaultBoardId this)
      in if \<not> truthy effectiveBoardId then (Some (Inl boardId_required), w)
         else handleRequest fuel
                (api srv \<lparr>verb = GET,
                          url = ''/boards/'' @ interpolate effectiveBoardId @ ''/members'',
                          payload = []\<rparr> data) w)"

definition getBoardLabels ::
  "nat \<Rightarrow> upstream \<Rightarrow> TrelloClient \<Rightarrow> string option \<Rightarrow> world
     \<Rightarrow> (thrown + json) option \<times> world" where
  "getBoardLabels fuel srv this bid w =
     (let effectiveBoardId =
            js_or (js_or bid (boardId (activeConfig this))) (this_defaultBoardId this)
      in if \<not> truthy effectiveBoardId then (Some (Inl boardId_required), w)
         else handleRequest fuel
                (api srv \<lparr>verb = GET,
                          url = ''/boards/'' @ interpolate effectiveBoardId @ ''/labels'',
                          payload = []\<rparr> data) w)"

definition createLabel ::
  "nat \<Rightarrow> upstream \<Rightarrow> TrelloClient \<Rightarrow> string option \<Rightarrow> string \<Rightarrow> string option \<Rightarrow> world
     \<Rightarrow> (thrown + json) option \<times> world" where
  "createLabel fuel srv this bid name color w =
     (let effectiveBoardId =
            js_or (js_or bid (boardId (activeConfig this))) (this_defaultBoardId this)
      in if \<not> truthy effectiveBoardId then (Some (Inl boardId_required), w)
         else handleRequest fuel
                (api srv \<lparr>verb = POST,
                          url = ''/boards/'' @ interpolate effectiveBoardId @ ''/labels'',
                          payload = [(''name'', Str name),
                                     (''color'', (case color of None \<Rightarrow> Undefined
                                                  | Some c \<Rightarrow> Str c))]\<rparr>
                   data) w)"

section \<open>Saving the configuration, setActiveBoard\<close>

definition fs_mkdir :: "world \<Rightarrow> (thrown + unit) \<times> world" where
  "fs_mkdir w = (if mkdir_ok w then (Inr (), w) else (Inl (Error ''EACCES''), w))"

definition fs_writeFile ::
  "string option \<times> string option \<Rightarrow> world \<Rightarrow> (thrown + unit) \<times> world" where
  "fs_writeFile content w =
     (if writeFile_ok w then (Inr (), w\<lparr>config_file := Some content\<rparr>)
      else (Inl (Error ''EACCES''), w))"

definition saveConfig :: "TrelloClient \<Rightarrow> world \<Rightarrow> (thrown + unit) \<times> world" where
  "saveConfig this w =
     (case fs_mkdir w of
        (Inl e, w1) \<Rightarrow> (Inl (Error ''Failed to save configuration''), w1)
      | (Inr u, w1) \<Rightarrow>
          (let configToSave = (boardId (activeConfig this), workspaceId (activeConfig this))
           in case fs_writeFile configToSave w1 of
                (Inl e, w2) \<Rightarrow> (Inl (Error ''Failed to save configuration''), w2)
              | (Inr u, w2) \<Rightarrow> (Inr (), w2)))"

definition setActiveBoard ::
  "nat \<Rightarrow> upstream \<Rightarrow> string \<Rightarrow> TrelloClient \<Rightarrow> world
     \<Rightarrow> (thrown + json) option \<times> TrelloClient \<times> world" where
  "setActiveBoard fuel srv bid this w =
     (case getBoardById fuel srv bid w of
        (None, w1) \<Rightarrow> (None, this, w1)
      | (Some (Inl e), w1) \<Rightarrow> (Some (Inl e), this, w1)
      | (Some (Inr board), w1) \<Rightarrow>
          (let this1 = this\<lparr>activeConfig := (activeConfig this)\<lparr>boardId := Some bid\<rparr>\<rparr>
           in case saveConfig this1 w1 of
                (Inl e, w2) \<Rightarrow> (Some (Inl e), this1, w2)
              | (Inr u, w2) \<Rightarrow> (Some (Inr board), this1, w2)))"

section \<open>Test doubles\<close>

text \<open>
  A scripted operation, as a test would mock one: its \<open>k\<close>-th invocation (counted from 0)
  settles with \<open>script k\<close>, and every invocation is counted in the world.
\<close>

definition mock :: "(nat \<Rightarrow> thrown + 'a) \<Rightarrow> world \<Rightarrow> (thrown + 'a) \<times> world" where
  "mock script w = (script (invocations w), w\<lparr>invocations := Suc (invocations w)\<rparr>)"

text \<open>The throttling signal: a rejection whose response has status 429.\<close>

definition throttled :: "thrown + 'a \<Rightarrow> bool" where
  "throttled r =
     (case r of Inl (AxiosError msg (Some resp)) \<Rightarrow> status resp = 429 | _ \<Rightarrow> False)"

text \<open>What \<open>handleRequest\<close> hands to its caller for an outcome it does not retry.\<close>

definition surface :: "thrown + 'a \<Rightarrow> thrown + 'a" where
  "surface r =
     (case r of
        Inr v \<Rightarrow> Inr v
      | Inl (AxiosError msg response) \<Rightarrow>
          Inl (McpError InternalError (api_error_message response msg)
                 (map_option data response))
      | Inl _ \<Rightarrow> Inl (McpError InternalError ''An unexpected error occurred'' None))"

definition w0 :: world where
  "w0 = \<lparr>clock = 0, invocations = 0, trace = [], mkdir_ok = True, writeFile_ok = True,
          config_file = None\<rparr>"

definition throttled_forever :: "nat \<Rightarrow> thrown + json" where
  "throttled_forever k =
     Inl (AxiosError ''Request failed with status code 429''
            (Some \<lparr>status = 429, data = ''Rate limit exceeded''\<rparr>))"

definition flaky :: "nat \<Rightarrow> thrown + json" where
  "flaky k = (if k < 2 then throttled_forever k else Inr ''[]'')"

definition not_found :: "nat \<Rightarrow> thrown + json" where
  "not_found k =
     Inl (AxiosError ''Request failed with status code 404''
            (Some \<lparr>status = 404, data = ''invalid id''\<rparr>))"

definition file_not_found :: "nat \<Rightarrow> thrown + json" where
  "file_not_found k = Inl (McpError InvalidRequest ''File not found: /tmp/a.png'' None)"


text \<open>Upstream services for the examples, a client with nothing configured, one with a
  default board, and a world whose configuration file cannot be written.\<close>

definition boards_request :: request where
  "boards_request = \<lparr>verb = GET, url = ''/members/me/boards'', payload = []\<rparr>"

definition board_server :: upstream where
  "board_server history req = Inr \<lparr>status = 200, data = ''board b1''\<rparr>"

definition busy_server :: upstream where
  "busy_server history req =
     (if length history < 2
      then Inl (AxiosError ''Request failed with status code 429''
                  (Some \<lparr>status = 429, data = ''Rate limit exceeded''\<rparr>))
      else Inr \<lparr>status = 200, data = ''board b1''\<rparr>)"

definition missing_server :: upstream where
  "missing_server history req =
     Inl (AxiosError ''Request failed with status code 404''
            (Some \<lparr>status = 404, data = ''invalid id''\<rparr>))"

definition client0 :: TrelloClient where
  "client0 = new_TrelloClient
     \<lparr>apiKey = ''key'', token = ''tok'', defaultBoardId = None, boardId = None,
      workspaceId = Some ''ws1''\<rparr>"

definition client_b2 :: TrelloClient where
  "client_b2 = new_TrelloClient
     \<lparr>apiKey = ''key'', token = ''tok'', defaultBoardId = Some ''b2'', boardId = None,
      workspaceId = None\<rparr>"

definition read_only :: world where
  "read_only = w0\<lparr>writeFile_ok := False\<rparr>"

text \<open>
  The first identifier that is available, in the order given. An identifier is available
  when it is a non-empty string: \<open>||\<close> skips \<open>undefined\<close> and the empty string alike.
\<close>

definition first_available :: "string option list \<Rightarrow> string option" where
  "first_available candidates =
     (case filter truthy candidates of [] \<Rightarrow> None | c # cs \<Rightarrow> c)"

section \<open>Numbers\<close>

text \<open>
  A JavaScript number is an IEEE 754 double. The numbers that arise in
  \<open>convertToCheckList\<close> are array lengths and the results of one division and one
  multiplication, all finite and far from the subnormal and overflow ranges, so a double
  is represented by the rational it denotes, and an arithmetic operation is the exact
  operation followed by rounding to the nearest double, ties to the even significand:
  \<open>double x\<close> scales \<open>x\<close> by a power of two into \<open>[2^52, 2^53)\<close>, rounds to an integer and
  scales back. \<open>binary_exponent x\<close> is the \<open>e\<close> with \<open>2^e \<le> x < 2^(e+1)\<close>.
\<close>

definition binary_exponent :: "rat \<Rightarrow> int" where
  "binary_exponent x =
     (case quotient_of x of
        (p, q) \<Rightarrow> (let d = bitlen p - bitlen q in if 2 powi d \<le> x then d else d - 1))"

definition round_half_even :: "rat \<Rightarrow> int" where
  "round_half_even m =
     (let n = \<lfloor>m\<rfloor>; r = m - of_int n
      in if r < 1 / 2 then n else if 1 / 2 < r then n + 1 else if even n then n else n + 1)"

definition double :: "rat \<Rightarrow> rat" where
  "double x =
     (if x = 0 then 0
      else (let e = binary_exponent \<bar>x\<bar>
            in sgn x * of_int (round_half_even (\<bar>x\<bar> * 2 powi (52 - e))) * 2 powi (e - 52)))"

text \<open>\<open>Math.round\<close>: the nearest integer, a value half-way between two going up.\<close>

definition Math_round :: "rat \<Rightarrow> int" where
  "Math_round x = \<lfloor>x + 1 / 2\<rfloor>"

section \<open>Checklists\<close>

text \<open>
  \<open>types.js\<close> is not among the sources; the records hold the fields the two conversion
  functions read and write.
\<close>

record TrelloCheckItem =
  ci_id :: string
  ci_name :: string
  ci_state :: string

record TrelloChecklist =
  cl_id :: string
  cl_name :: string
  checkItems :: "TrelloCheckItem list"

record CheckListItem =
  item_id :: string
  item_text :: string
  complete :: bool
  parentCheckListId :: string

record CheckList =
  list_id :: string
  list_name :: string
  items :: "CheckListItem list"
  percentComplete :: int

definition convertToCheckListItem :: "TrelloCheckItem \<Rightarrow> string \<Rightarrow> CheckListItem" where
  "convertToCheckListItem trelloItem parent =
     \<lparr>item_id = ci_id trelloItem, item_text = ci_name trelloItem,
      complete = (ci_state trelloItem = ''complete''), parentCheckListId = parent\<rparr>"

definition convertToCheckList :: "TrelloChecklist \<Rightarrow> CheckList" where
  "convertToCheckList trelloChecklist =
     (let completedItems =
            length (filter (\<lambda>item. ci_state item = ''complete'') (checkItems trelloChecklist));
          totalItems = length (checkItems trelloChecklist);
          percentComplete =
            (if totalItems > 0
             then Math_round (double (double (of_nat completedItems / of_nat totalItems) * 100))
             else 0)
      in \<lparr>list_id = cl_id trelloChecklist, list_name = cl_name trelloChecklist,
          items = map (\<lambda>item. convertToCheckListItem item (cl_id trelloChecklist))
                    (checkItems trelloChecklist),
          percentComplete = percentComplete\<rparr>)"

text \<open>The percentage as \<open>convertToCheckList\<close> computes it, and example checklists.\<close>

definition percent :: "nat \<Rightarrow> nat \<Rightarrow> int" where
  "percent c t = Math_round (double (double (of_nat c / of_nat t) * 100))"

definition done_item :: TrelloCheckItem where
  "done_item = \<lparr>ci_id = ''i1'', ci_name = ''written'', ci_state = ''complete''\<rparr>"

definition open_item :: TrelloCheckItem where
  "open_item = \<lparr>ci_id = ''i2'', ci_name = ''reviewed'', ci_state = ''incomplete''\<rparr>"

definition checklist_23_of_40 :: TrelloChecklist where
  "checklist_23_of_40 =
     \<lparr>cl_id = ''c1'', cl_name = ''Acceptance Criteria'',
      checkItems = replicate 23 done_item @ replicate 17 open_item\<rparr>"

definition checklist_2_of_3 :: TrelloChecklist where
  "checklist_2_of_3 =
     \<lparr>cl_id = ''c2'', cl_name = ''Todo'', checkItems = [done_item, open_item, done_item]\<rparr>"

section \<open>The rate limiter\<close>

text \<open>
  Modelled from the spec: \<open>rate-limiter.js\<close> (\<open>createTrelloRateLimiters\<close>,
  \<open>waitForAvailableToken\<close>) is not among the sources. A \<open>RateWindow\<close> has a capacity, a
  duration and the log of the times of its admissions, oldest first. Times are
  milliseconds.
\<close>

record RateWindow =
  capacity :: nat
  duration :: nat
  usageLog :: "nat list"

text \<open>
  Modelled from the spec: the result of \<open>tryConsume\<close>, which is absent from the sources:
  admitted, or rejected with the earliest time at which a slot frees.
\<close>

datatype consumed = Admitted | Rejected nat

text \<open>
  Modelled from the spec: the lazy pruning done on every call of the absent
  \<open>tryConsume\<close>. An entry has expired at \<open>now\<close> when it is \<open>duration\<close> or more old, so the
  entries kept are those within \<open>(now - duration, now]\<close>.
\<close>

definition prune :: "nat \<Rightarrow> RateWindow \<Rightarrow> RateWindow" where
  "prune now win = win\<lparr>usageLog := filter (\<lambda>ts. now < ts + duration win) (usageLog win)\<rparr>"

text \<open>
  Modelled from the spec: \<open>tryConsume(now)\<close> of the absent \<open>RateWindow\<close>. It admits and
  records \<open>now\<close> iff fewer than \<open>capacity\<close> entries fall within \<open>(now - duration, now]\<close>;
  otherwise it rejects with the time of the oldest entry plus \<open>duration\<close>.
\<close>

definition tryConsume :: "nat \<Rightarrow> RateWindow \<Rightarrow> consumed \<times> RateWindow" where
  "tryConsume now win =
     (let pruned = prune now win
      in if length (usageLog pruned) < capacity pruned
         then (Admitted, pruned\<lparr>usageLog := usageLog pruned @ [now]\<rparr>)
         else (case usageLog pruned of
                 [] \<Rightarrow> (Rejected now, pruned)
               | oldest # rest \<Rightarrow> (Rejected (oldest + duration pruned), pruned)))"

text \<open>
  Modelled from the spec: whether the absent \<open>tryConsume\<close> would admit at \<open>now\<close>, asked
  without consuming, since a caller must be admitted by both windows at once.
\<close>

definition hasCapacity :: "nat \<Rightarrow> RateWindow \<Rightarrow> bool" where
  "hasCapacity now win = (fst (tryConsume now win) = Admitted)"

text \<open>
  Modelled from the spec: a suspended caller of the absent \<open>acquire\<close>, with the handle it
  was given and its enqueue time.
\<close>

record PendingAcquirer =
  handle :: nat
  enqueuedAt :: nat

text \<open>
  Modelled from the spec: the absent \<open>DualWindowLimiter\<close> with its two windows and its
  \<open>WaitQueue\<close>, head first. The last three fields are history kept for stating
  properties: who was admitted and when, in order of admission, who was suspended, in
  order of enqueueing, and who was cancelled while suspended.
\<close>

record DualWindowLimiter =
  appWindow :: RateWindow
  userWindow :: RateWindow
  waitQueue :: "PendingAcquirer list"
  nextHandle :: nat
  admitted :: "(nat \<times> nat) list"
  suspended :: "nat list"
  cancelled :: "nat list"

text \<open>
  Modelled from the spec: construction of the absent limiter from the two quota
  definitions (capacity and window duration each).
\<close>

definition newLimiter :: "nat \<Rightarrow> nat \<Rightarrow> nat \<Rightarrow> nat \<Rightarrow> DualWindowLimiter" where
  "newLimiter appCapacity appDuration userCapacity userDuration =
     \<lparr>appWindow = \<lparr>capacity = appCapacity, duration = appDuration, usageLog = []\<rparr>,
      userWindow = \<lparr>capacity = userCapacity, duration = userDuration, usageLog = []\<rparr>,
      waitQueue = [], nextHandle = 0, admitted = [], suspended = [], cancelled = []\<rparr>"

text \<open>
  Modelled from the spec: one atomic admission attempt of the absent \<open>acquire\<close>: the
  caller is admitted by both windows at once or by neither; a rejected attempt still
  prunes.
\<close>

definition tryAdmit :: "nat \<Rightarrow> nat \<Rightarrow> DualWindowLimiter \<Rightarrow> bool \<times> DualWindowLimiter" where
  "tryAdmit h now lmt =
     (if hasCapacity now (appWindow lmt) \<and> hasCapacity now (userWindow lmt)
      then (True, lmt\<lparr>appWindow := snd (tryConsume now (appWindow lmt)),
                      userWindow := snd (tryConsume now (userWindow lmt)),
                      admitted := admitted lmt @ [(h, now)]\<rparr>)
      else (False, lmt\<lparr>appWindow := prune now (appWindow lmt),
                       userWindow := prune now (userWindow lmt)\<rparr>))"

text \<open>
  Modelled from the spec: what can happen at the absent limiter, each with its time: a
  caller calls \<open>acquire\<close>, \<open>notifyCapacityMayBeAvailable\<close> fires, a suspended caller is
  cancelled. The spec serialises all mutation of the limiter state, so an interleaving of
  concurrent callers is a list of these events.
\<close>

datatype limiter_event = Acquire nat | Notify nat | Cancel nat nat

text \<open>Modelled from the spec: the time at which an event of the absent limiter happens.\<close>

fun time_of :: "limiter_event \<Rightarrow> nat" where
  "time_of (Acquire now) = now"
| "time_of (Notify now) = now"
| "time_of (Cancel h now) = now"

text \<open>
  Modelled from the spec: the absent limiter's reaction to one event. A caller arriving
  while others wait joins the queue behind them (a freed slot goes to the longest-waiting
  caller, never to a newer arrival); one arriving at an empty queue is admitted if both
  windows have room and is suspended otherwise. A notification re-examines the head of
  the queue only. A cancelled caller leaves the queue and consumes nothing.
\<close>

fun step :: "limiter_event \<Rightarrow> DualWindowLimiter \<Rightarrow> DualWindowLimiter" where
  "step (Acquire now) lmt =
     (let h = nextHandle lmt; lim1 = lmt\<lparr>nextHandle := Suc h\<rparr>;
          enqueue = (\<lambda>l. l\<lparr>waitQueue := waitQueue l @ [\<lparr>handle = h, enqueuedAt = now\<rparr>],
                          suspended := suspended l @ [h]\<rparr>)
      in if waitQueue lmt \<noteq> [] then enqueue lim1
         else (case tryAdmit h now lim1 of
                 (True, lim2) \<Rightarrow> lim2
               | (False, lim2) \<Rightarrow> enqueue lim2))"
| "step (Notify now) lmt =
     (case waitQueue lmt of
        [] \<Rightarrow> lmt
      | p # ps \<Rightarrow>
          (case tryAdmit (handle p) now lmt of
             (True, lim1) \<Rightarrow> lim1\<lparr>waitQueue := ps\<rparr>
           | (False, lim1) \<Rightarrow> lim1))"
| "step (Cancel h now) lmt =
     (if h \<in> handle ` set (waitQueue lmt)
      then lmt\<lparr>waitQueue := filter (\<lambda>p. handle p \<noteq> h) (waitQueue lmt),
               cancelled := cancelled lmt @ [h]\<rparr>
      else lmt)"

text \<open>
  Modelled from the spec: the absent limiter after a list of events, earliest first.
\<close>

fun run :: "limiter_event list \<Rightarrow> DualWindowLimiter \<Rightarrow> DualWindowLimiter" where
  "run [] lmt = lmt"
| "run (e # es) lmt = run es (step e lmt)"



text \<open>
  What the log of a window must agree on with the history of admissions from time \<open>t0\<close>
  on, and the quota: at most \<open>C\<close> admissions within \<open>(t - D, t]\<close> for every \<open>t\<close>.
\<close>

definition agrees :: "RateWindow \<Rightarrow> nat list \<Rightarrow> nat \<Rightarrow> bool" where
  "agrees win stamps t0 =
     (\<forall>now\<ge>t0. filter (\<lambda>ts. now < ts + duration win) (usageLog win) =
                filter (\<lambda>ts. now < ts + duration win) stamps)"

definition within_quota :: "nat \<Rightarrow> nat \<Rightarrow> nat list \<Rightarrow> bool" where
  "within_quota C D stamps = (\<forall>t. length (filter (\<lambda>ts. ts \<le> t \<and> t < ts + D) stamps) \<le> C)"

definition window_ok :: "RateWindow \<Rightarrow> nat list \<Rightarrow> nat \<Rightarrow> bool" where
  "window_ok win stamps t0 =
     (agrees win stamps t0 \<and> within_quota (capacity win) (duration win) stamps)"

definition limiter_ok :: "DualWindowLimiter \<Rightarrow> nat \<Rightarrow> bool" where
  "limiter_ok lmt t0 =
     (window_ok (appWindow lmt) (map snd (admitted lmt)) t0 \<and>
      window_ok (userWindow lmt) (map snd (admitted lmt)) t0)"


text \<open>
  The scenario of the spec (capacity 5 in 10 s, six callers at time 0), and three callers
  waiting on a window of capacity 1, the first of them cancelled: the whole run, and the
  state in which two of them still wait.
\<close>

definition six_callers :: "limiter_event list" where
  "six_callers =
     [Acquire 0, Acquire 0, Acquire 0, Acquire 0, Acquire 0, Acquire 0,
      Notify 9999, Notify 10000]"




section \<open>Retrying: one step, and a run of throttled attempts\<close>

lemma handleRequest_throttled_step:
  assumes "throttled (fst (requestFn w))"
  shows "handleRequest (Suc n) requestFn w =
         handleRequest n requestFn (setTimeout 1000 (snd (requestFn w)))"
  using assms
  by (auto simp: throttled_def split: prod.splits sum.splits thrown.splits option.splits)

lemma handleRequest_settled_step:
  assumes "\<not> throttled (fst (requestFn w))"
  shows "handleRequest (Suc n) requestFn w =
         (Some (surface (fst (requestFn w))), snd (requestFn w))"
  using assms
  by (auto simp: throttled_def surface_def
      split: prod.splits sum.splits thrown.splits option.splits)

lemma mock_throttled_run:
  "(\<And>j. j < k \<Longrightarrow> throttled (script (invocations w + j))) \<Longrightarrow>
   handleRequest (k + n) (mock script) w =
   handleRequest n (mock script)
     (w\<lparr>invocations := invocations w + k, clock := clock w + 1000 * k\<rparr>)"
proof (induction k arbitrary: w)
  case 0
  show ?case by simp
next
  case (Suc k)
  let ?w1 = "w\<lparr>invocations := Suc (invocations w), clock := clock w + 1000\<rparr>"
  have first: "throttled (fst (mock script w))"
    using Suc.prems [of 0] by (simp add: mock_def)
  have rest: "throttled (script (invocations ?w1 + j))" if "j < k" for j
    using Suc.prems [of "Suc j"] that by simp
  have "handleRequest (Suc k + n) (mock script) w = handleRequest (k + n) (mock script) ?w1"
    using handleRequest_throttled_step [of "mock script" w "k + n"] first
    by (simp add: mock_def setTimeout_def del: handleRequest.simps)
  also have "\<dots> = handleRequest n (mock script)
      (?w1\<lparr>invocations := invocations ?w1 + k, clock := clock ?w1 + 1000 * k\<rparr>)"
    using rest by (rule Suc.IH)
  finally show ?case by (simp add: add.commute add.left_commute)
qed

lemma throttled_forever_throttled: "throttled (throttled_forever k)"
  by (simp add: throttled_forever_def throttled_def)

lemma throttled_forever_run:
  "handleRequest fuel (mock throttled_forever) w0 =
     (None, w0\<lparr>invocations := invocations w0 + fuel, clock := clock w0 + 1000 * fuel\<rparr>)"
  using mock_throttled_run [of fuel throttled_forever w0 0]
  by (simp add: throttled_forever_throttled)

section \<open>Retry exhaustion\<close>

text \<open>
  The claim C1 asks for a hard maximum attempt count. The code has none: against an
  operation that is throttled on every invocation the number of invocations passes every
  bound, and no amount of fuel makes \<open>handleRequest\<close> return.
\<close>

theorem retry_exhaustion_counterexample:
  "\<not> (\<exists>maxAttempts. \<forall>fuel.
        invocations (snd (handleRequest fuel (mock throttled_forever) w0)) \<le> maxAttempts)
   \<and> \<not> (\<exists>fuel r. fst (handleRequest fuel (mock throttled_forever) w0) = Some r)"
proof -
  have unbounded:
    "\<not> invocations (snd (handleRequest (Suc m) (mock throttled_forever) w0)) \<le> m" for m
    unfolding throttled_forever_run by (simp add: w0_def)
  have running: "fst (handleRequest fuel (mock throttled_forever) w0) \<noteq> Some r" for fuel r
    unfolding throttled_forever_run by simp
  show ?thesis
  proof (intro conjI notI)
    assume "\<exists>maxAttempts. \<forall>fuel.
        invocations (snd (handleRequest fuel (mock throttled_forever) w0)) \<le> maxAttempts"
    then obtain m where
      "\<forall>fuel. invocations (snd (handleRequest fuel (mock throttled_forever) w0)) \<le> m" ..
    then have "invocations (snd (handleRequest (Suc m) (mock throttled_forever) w0)) \<le> m" ..
    with unbounded show False by simp
  next
    assume "\<exists>fuel r. fst (handleRequest fuel (mock throttled_forever) w0) = Some r"
    with running show False by simp
  qed
qed

text \<open>
  C1, as the code has it: for every operation whose every invocation reports the
  throttling signal, \<open>handleRequest\<close> never returns. After any number \<open>n\<close> of attempts it
  has invoked the operation \<open>n\<close> times, has waited 1000 ms after each of them, and is
  still retrying; no exhausted-retry error is raised.
\<close>

theorem handleRequest_retries_without_bound:
  assumes "\<forall>k. throttled (script k)"
  shows "handleRequest n (mock script) w =
         (None, w\<lparr>invocations := invocations w + n, clock := clock w + 1000 * n\<rparr>)"
  using mock_throttled_run [of n script w 0] assms by simp

theorem handleRequest_retries_without_bound_witness:
  "(\<forall>k. throttled (throttled_forever k)) \<and>
   handleRequest 5 (mock throttled_forever) w0 = (None, w0\<lparr>invocations := 5, clock := 5000\<rparr>)"
proof -
  have h: "\<forall>k. throttled (throttled_forever k)"
    by (simp add: throttled_forever_throttled)
  show ?thesis
    using h handleRequest_retries_without_bound [OF h, of 5 w0] by (simp add: w0_def)
qed

section \<open>Retry determinism\<close>

text \<open>
  C3: an operation whose next two invocations report the throttling signal and whose
  third yields a value is invoked exactly three times (with three or more units of
  fuel), and \<open>handleRequest\<close> returns that value; it has waited 1000 ms twice.
\<close>

theorem retry_determinism:
  assumes "throttled (script (invocations w))"
    and "throttled (script (invocations w + 1))"
    and "script (invocations w + 2) = Inr v"
    and "3 \<le> fuel"
  shows "handleRequest fuel (mock script) w =
         (Some (Inr v), w\<lparr>invocations := invocations w + 3, clock := clock w + 2000\<rparr>)"
proof -
  obtain n where fuel: "fuel = 2 + Suc n"
    using \<open>3 \<le> fuel\<close> by (metis add_2_eq_Suc le_Suc_ex numeral_3_eq_3 add_Suc)
  have "throttled (script (invocations w + j))" if "j < 2" for j
    using that assms(1,2) by (cases j) (auto simp: less_Suc_eq numeral_2_eq_2)
  then have "handleRequest fuel (mock script) w = handleRequest (Suc n) (mock script)
      (w\<lparr>invocations := invocations w + 2, clock := clock w + 1000 * 2\<rparr>)"
    unfolding fuel by (rule mock_throttled_run)
  also have "\<dots> =
      (Some (Inr v), w\<lparr>invocations := invocations w + 3, clock := clock w + 2000\<rparr>)"
    using assms(3) by (simp add: mock_def)
  finally show ?thesis .
qed

theorem retry_determinism_witness:
  "throttled (flaky 0) \<and> throttled (flaky 1) \<and> flaky 2 = Inr ''[]'' \<and>
   handleRequest 7 (mock flaky) w0 = (Some (Inr ''[]''), w0\<lparr>invocations := 3, clock := 2000\<rparr>)"
  using retry_determinism [of flaky w0 "''[]''" 7]
  by (simp add: flaky_def throttled_forever_throttled w0_def)

section \<open>Failures that are not retried\<close>

text \<open>
  C4: an operation that reports an upstream 4xx response other than 429 is invoked exactly
  once. \<open>handleRequest\<close> does not wait and does not retry: it raises an error whose message
  holds the upstream status and whose data is the response body.
\<close>

theorem invalid_request_not_retried:
  assumes "script (invocations w) = Inl (AxiosError msg (Some resp))"
    and "400 \<le> status resp" and "status resp < 500" and "status resp \<noteq> 429"
  shows "handleRequest (Suc n) (mock script) w =
         (Some (Inl (McpError InternalError
                  (''Trello API Error: '' @ string_of_nat (status resp) @ '' '' @ msg)
                  (Some (data resp)))),
          w\<lparr>invocations := Suc (invocations w)\<rparr>)"
  using assms by (simp add: mock_def api_error_message_def)

theorem invalid_request_not_retried_witness:
  "handleRequest 3 (mock not_found) w0 =
     (Some (Inl (McpError InternalError
              ''Trello API Error: 404 Request failed with status code 404''
              (Some ''invalid id''))),
      w0\<lparr>invocations := 1\<rparr>)"
  using invalid_request_not_retried [of not_found w0
      "''Request failed with status code 404''" "\<lparr>status = 404, data = ''invalid id''\<rparr>" 2]
  by (simp add: not_found_def w0_def string_of_nat.simps digit_char_def)


section \<open>What reaches the caller\<close>




text \<open>
  The closure of \<open>attachFileToCard\<close> rejects with
  \<open>McpError(InvalidRequest, 'File not found: ...')\<close> when the local file is missing, as that
  of \<open>attachImageDataToCard\<close> does for a data URL it cannot parse; both errors are written
  for the caller. Run under \<open>handleRequest\<close>, such an error does not reach the caller: the
  branch for unexpected errors raises its own fixed error in its place.
\<close>

lemma closure_McpError_overwritten:
  "fst (handleRequest 1 (mock file_not_found) w0) =
     Some (Inl (McpError InternalError ''An unexpected error occurred'' None))"
  by (simp add: mock_def file_not_found_def)

section \<open>Admission before every upstream call\<close>

lemma api_trace:
  "trace (snd (api srv req f w)) = trace w @ [Admission, UpstreamCall req]"
  by (simp add: api_def axiosInstance_def request_interceptor_def waitForAvailableToken_def
      split: sum.splits)

lemma validated_api_trace:
  "trace (snd (validated check (api srv req f) w)) = trace w \<or>
   trace (snd (validated check (api srv req f) w)) = trace w @ [Admission, UpstreamCall req]"
  by (simp add: validated_def api_trace split: option.splits)

text \<open>
  C6: whatever the upstream service answers, everything \<open>handleRequest\<close> adds to the
  trace for an operation of the client is a sequence of pairs, an admission by the rate
  limiter followed at once by the upstream call, at most one pair for each attempt. So
  no upstream call, first attempt or retry after a throttling signal, goes out without
  an admission of its own right before it.
\<close>

theorem every_attempt_admitted:
  "\<exists>k\<le>n. trace (snd (handleRequest n (validated check (api srv req f)) w)) =
            trace w @ concat (replicate k [Admission, UpstreamCall req])"
proof (induction n arbitrary: w)
  case 0
  show ?case by simp
next
  case (Suc n)
  let ?op = "validated check (api srv req f)"
  let ?pair = "[Admission, UpstreamCall req]"
  obtain j where j: "j \<le> 1" "trace (snd (?op w)) = trace w @ concat (replicate j ?pair)"
  proof (cases "trace (snd (?op w)) = trace w")
    case True
    then have "trace (snd (?op w)) = trace w @ concat (replicate 0 ?pair)" by simp
    then show ?thesis using that [of 0] by simp
  next
    case False
    with validated_api_trace [of check srv req f w]
    have "trace (snd (?op w)) = trace w @ concat (replicate 1 ?pair)" by simp
    then show ?thesis using that [of 1] by simp
  qed
  show ?case
  proof (cases "throttled (fst (?op w))")
    case True
    let ?w1 = "setTimeout 1000 (snd (?op w))"
    have step: "handleRequest (Suc n) ?op w = handleRequest n ?op ?w1"
      using True by (rule handleRequest_throttled_step)
    from Suc.IH [of ?w1] obtain k where k: "k \<le> n"
      "trace (snd (handleRequest n ?op ?w1)) = trace ?w1 @ concat (replicate k ?pair)"
      by blast
    have "trace ?w1 = trace w @ concat (replicate j ?pair)"
      using j(2) by (simp add: setTimeout_def)
    with k(2) have "trace (snd (handleRequest (Suc n) ?op w)) =
        trace w @ concat (replicate (j + k) ?pair)"
      unfolding step by (simp add: replicate_add)
    moreover have "j + k \<le> Suc n" using j(1) k(1) by simp
    ultimately show ?thesis by blast
  next
    case False
    have step: "handleRequest (Suc n) ?op w = (Some (surface (fst (?op w))), snd (?op w))"
      using False by (rule handleRequest_settled_step)
    have "trace (snd (handleRequest (Suc n) ?op w)) = trace w @ concat (replicate j ?pair)"
      unfolding step using j(2) by simp
    moreover have "j \<le> Suc n" using j(1) by simp
    ultimately show ?thesis by blast
  qed
qed

theorem every_attempt_admitted_witness:
  "handleRequest 5 (validated (\<lambda>w. None) (api busy_server boards_request data)) w0 =
     (Some (Inr ''board b1''),
      w0\<lparr>clock := 1000,
         trace := [Admission, UpstreamCall boards_request,
                   Admission, UpstreamCall boards_request]\<rparr>) \<and>
   (\<exists>k\<le>5. [Admission, UpstreamCall boards_request, Admission, UpstreamCall boards_request] =
       concat (replicate k [Admission, UpstreamCall boards_request]))"
proof -
  have five: "(5::nat) = Suc (Suc (Suc (Suc (Suc 0))))" by simp
  have run: "handleRequest 5 (validated (\<lambda>w. None) (api busy_server boards_request data)) w0 =
     (Some (Inr ''board b1''),
      w0\<lparr>clock := 1000,
         trace := [Admission, UpstreamCall boards_request,
                   Admission, UpstreamCall boards_request]\<rparr>)"
    unfolding five
    by (simp add: validated_def api_def axiosInstance_def request_interceptor_def
        waitForAvailableToken_def busy_server_def setTimeout_def w0_def)
  from every_attempt_admitted [of 5 "\<lambda>w. None" busy_server boards_request data w0]
  have "\<exists>k\<le>5. [Admission, UpstreamCall boards_request, Admission, UpstreamCall boards_request] =
       concat (replicate k [Admission, UpstreamCall boards_request])"
    unfolding run by (simp add: w0_def)
  with run show ?thesis by (rule conjI)
qed

section \<open>Board-scoped calls\<close>

lemmas board_scoped_defs =
  getLists_def getRecentActivity_def addList_def getBoardMembers_def getBoardLabels_def
  createLabel_def

text \<open>
  C8: each of \<open>getLists\<close>, \<open>getRecentActivity\<close>, \<open>addList\<close>, \<open>getBoardMembers\<close>,
  \<open>getBoardLabels\<close> and \<open>createLabel\<close> looks for a board identifier in the explicit
  argument, then the active board, then the default board. When none is available it
  raises \<open>McpError(InvalidParams)\<close> and leaves the world as it was, so no upstream request
  is made; otherwise its request, handed to \<open>handleRequest\<close>, names the first available
  one. (An empty string counts as not available, like an absent one.)
\<close>

theorem board_scoped_calls:
  "case first_available [bid, boardId (activeConfig this), this_defaultBoardId this] of
     None \<Rightarrow>
       getLists fuel srv this bid w =
         (Some (Inl (McpError InvalidParams
            ''boardId is required when no default board is configured'' None)), w) \<and>
       getRecentActivity fuel srv this bid limit_arg w =
         (Some (Inl (McpError InvalidParams
            ''boardId is required when no default board is configured'' None)), w) \<and>
       addList fuel srv this bid name w =
         (Some (Inl (McpError InvalidParams
            ''boardId is required when no default board is configured'' None)), w) \<and>
       getBoardMembers fuel srv this bid w =
         (Some (Inl (McpError InvalidParams
            ''boardId is required when no default board is configured'' None)), w) \<and>
       getBoardLabels fuel srv this bid w =
         (Some (Inl (McpError InvalidParams
            ''boardId is required when no default board is configured'' None)), w) \<and>
       createLabel fuel srv this bid name color w =
         (Some (Inl (McpError InvalidParams
            ''boardId is required when no default board is configured'' None)), w)
   | Some b \<Rightarrow>
       getLists fuel srv this bid w =
         handleRequest fuel
           (api srv \<lparr>verb = GET, url = ''/boards/'' @ b @ ''/lists'', payload = []\<rparr> data) w \<and>
       getRecentActivity fuel srv this bid limit_arg w =
         handleRequest fuel
           (api srv \<lparr>verb = GET, url = ''/boards/'' @ b @ ''/actions'',
                     payload = [(''limit'', Num (case limit_arg of None \<Rightarrow> 10 | Some l \<Rightarrow> l))]\<rparr>
              data) w \<and>
       addList fuel srv this bid name w =
         handleRequest fuel
           (api srv \<lparr>verb = POST, url = ''/lists'',
                     payload = [(''name'', Str name), (''idBoard'', Str b)]\<rparr> data) w \<and>
       getBoardMembers fuel srv this bid w =
         handleRequest fuel
           (api srv \<lparr>verb = GET, url = ''/boards/'' @ b @ ''/members'', payload = []\<rparr> data)
           w \<and>
       getBoardLabels fuel srv this bid w =
         handleRequest fuel
           (api srv \<lparr>verb = GET, url = ''/boards/'' @ b @ ''/labels'', payload = []\<rparr> data)
           w \<and>
       createLabel fuel srv this bid name color w =
         handleRequest fuel
           (api srv \<lparr>verb = POST, url = ''/boards/'' @ b @ ''/labels'',
                     payload = [(''name'', Str name),
                                (''color'', (case color of None \<Rightarrow> Undefined
                                             | Some c \<Rightarrow> Str c))]\<rparr> data) w"
proof -
  let ?e = "js_or (js_or bid (boardId (activeConfig this))) (this_defaultBoardId this)"
  show ?thesis
  proof (cases "first_available [bid, boardId (activeConfig this), this_defaultBoardId this]")
    case None
    then have "\<not> truthy ?e"
      by (simp add: first_available_def js_or_def truthy_def split: if_splits)
    then show ?thesis
      unfolding None by (simp add: board_scoped_defs boardId_required_def)
  next
    case (Some b)
    then have "?e = Some b" and "truthy ?e"
      by (auto simp: first_available_def js_or_def split: if_splits)
    then show ?thesis
      unfolding Some by (simp add: board_scoped_defs interpolate_def del: handleRequest.simps)
  qed
qed

theorem board_scoped_calls_witness:
  "getLists 1 board_server client0 None w0 =
     (Some (Inl (McpError InvalidParams
        ''boardId is required when no default board is configured'' None)), w0) \<and>
   getLists 1 board_server client_b2 None w0 =
     (Some (Inr ''board b1''),
      w0\<lparr>trace := [Admission,
                     UpstreamCall \<lparr>verb = GET, url = ''/boards/b2/lists'', payload = []\<rparr>]\<rparr>) \<and>
   getLists 1 board_server client_b2 (Some ''b7'') w0 =
     (Some (Inr ''board b1''),
      w0\<lparr>trace := [Admission,
                     UpstreamCall \<lparr>verb = GET, url = ''/boards/b7/lists'', payload = []\<rparr>]\<rparr>)"
proof -
  have c0: "boardId (activeConfig client0) = None" "this_defaultBoardId client0 = None"
    by (simp_all add: client0_def new_TrelloClient_def truthy_def)
  have c2: "boardId (activeConfig client_b2) = Some ''b2''"
    "this_defaultBoardId client_b2 = Some ''b2''"
    by (simp_all add: client_b2_def new_TrelloClient_def truthy_def)
  have served: "handleRequest (Suc 0) (api board_server req data) w0 =
      (Some (Inr ''board b1''), w0\<lparr>trace := [Admission, UpstreamCall req]\<rparr>)" for req
    by (simp add: api_def axiosInstance_def request_interceptor_def waitForAvailableToken_def
        board_server_def w0_def)
  show ?thesis
    using board_scoped_calls [where bid = None and this = client0 and fuel = 1
          and srv = board_server and w = w0]
      board_scoped_calls [where bid = None and this = client_b2 and fuel = 1
          and srv = board_server and w = w0]
      board_scoped_calls [where bid = "Some ''b7''" and this = client_b2 and fuel = 1
          and srv = board_server and w = w0]
    by (simp add: first_available_def truthy_def c0 c2 served del: handleRequest.simps)
qed

section \<open>Setting the active board\<close>

lemma saveConfig_result:
  "saveConfig this w =
     (if mkdir_ok w \<and> writeFile_ok w
      then (Inr (), w\<lparr>config_file :=
                        Some (boardId (activeConfig this), workspaceId (activeConfig this))\<rparr>)
      else (Inl (Error ''Failed to save configuration''), w))"
  by (simp add: saveConfig_def fs_mkdir_def fs_writeFile_def)

text \<open>
  C9, as the code has it: \<open>setActiveBoard\<close> first fetches the board. If that raises (or
  never returns), the client object is unchanged. If it yields a board, the active board
  id becomes the given id while the active workspace id, the credentials and the rest of
  the client are unchanged; the fetched board is returned when the configuration file
  could be written, and otherwise the error \<open>Failed to save configuration\<close> is raised,
  the active board id staying as just set.
\<close>

theorem setActiveBoard_effect:
  assumes "setActiveBoard fuel srv bid this w = (res, this', w')"
  shows "case getBoardById fuel srv bid w of
           (None, w1) \<Rightarrow> res = None \<and> this' = this \<and> w' = w1
         | (Some (Inl e), w1) \<Rightarrow> res = Some (Inl e) \<and> this' = this \<and> w' = w1
         | (Some (Inr board), w1) \<Rightarrow>
             boardId (activeConfig this') = Some bid \<and>
             workspaceId (activeConfig this') = workspaceId (activeConfig this) \<and>
             apiKey (activeConfig this') = apiKey (activeConfig this) \<and>
             token (activeConfig this') = token (activeConfig this) \<and>
             defaultBoardId (activeConfig this') = defaultBoardId (activeConfig this) \<and>
             config this' = config this \<and>
             this_defaultBoardId this' = this_defaultBoardId this \<and>
             (if mkdir_ok w1 \<and> writeFile_ok w1
              then res = Some (Inr board) \<and>
                   w' = w1\<lparr>config_file := Some (Some bid, workspaceId (activeConfig this))\<rparr>
              else res = Some (Inl (Error ''Failed to save configuration'')) \<and> w' = w1)"
  using assms
  by (auto simp: setActiveBoard_def saveConfig_result Let_def
      split: prod.splits option.splits sum.splits if_splits)

lemma getBoardById_board_server:
  "getBoardById (Suc n) board_server bid w =
     (Some (Inr ''board b1''),
      w\<lparr>trace := trace w @ [Admission,
          UpstreamCall \<lparr>verb = GET, url = ''/boards/'' @ bid, payload = []\<rparr>]\<rparr>)"
  by (simp add: getBoardById_def api_def axiosInstance_def request_interceptor_def
      waitForAvailableToken_def board_server_def)

text \<open>
  The claim C9 says the fetched board is returned whenever the verification succeeds.
  When the configuration file cannot be written, the verification succeeds, the active
  board id is set, and the call ends with an error instead of the board.
\<close>

theorem setActiveBoard_save_failure_counterexample:
  "fst (getBoardById 1 board_server ''b1'' read_only) = Some (Inr ''board b1'') \<and>
   fst (setActiveBoard 1 board_server ''b1'' client0 read_only) =
     Some (Inl (Error ''Failed to save configuration'')) \<and>
   boardId (activeConfig (fst (snd (setActiveBoard 1 board_server ''b1'' client0 read_only)))) =
     Some ''b1''"
  using getBoardById_board_server [of 0 "''b1''" read_only]
  by (simp add: setActiveBoard_def saveConfig_result read_only_def w0_def)

theorem setActiveBoard_effect_witness:
  "setActiveBoard 1 board_server ''b1'' client0 w0 =
     (Some (Inr ''board b1''),
      client0\<lparr>activeConfig := (activeConfig client0)\<lparr>boardId := Some ''b1''\<rparr>\<rparr>,
      w0\<lparr>trace := [Admission, UpstreamCall \<lparr>verb = GET, url = ''/boards/b1'', payload = []\<rparr>],
         config_file := Some (Some ''b1'', Some ''ws1'')\<rparr>) \<and>
   setActiveBoard 1 missing_server ''b1'' client0 w0 =
     (Some (Inl (McpError InternalError
               ''Trello API Error: 404 Request failed with status code 404''
               (Some ''invalid id''))),
      client0,
      w0\<lparr>trace := [Admission,
                     UpstreamCall \<lparr>verb = GET, url = ''/boards/b1'', payload = []\<rparr>]\<rparr>)"
proof -
  obtain r1 c1 v1 where a: "setActiveBoard 1 board_server ''b1'' client0 w0 = (r1, c1, v1)"
    by (cases "setActiveBoard 1 board_server ''b1'' client0 w0") auto
  obtain r2 c2 v2 where b: "setActiveBoard 1 missing_server ''b1'' client0 w0 = (r2, c2, v2)"
    by (cases "setActiveBoard 1 missing_server ''b1'' client0 w0") auto
  have g1: "getBoardById 1 board_server ''b1'' w0 =
      (Some (Inr ''board b1''),
       w0\<lparr>trace := [Admission, UpstreamCall \<lparr>verb = GET, url = ''/boards/b1'', payload = []\<rparr>]\<rparr>)"
    using getBoardById_board_server [of 0 "''b1''" w0] by (simp add: w0_def)
  have g2: "getBoardById 1 missing_server ''b1'' w0 =
      (Some (Inl (McpError InternalError
               ''Trello API Error: 404 Request failed with status code 404''
               (Some ''invalid id''))),
       w0\<lparr>trace := [Admission, UpstreamCall \<lparr>verb = GET, url = ''/boards/b1'', payload = []\<rparr>]\<rparr>)"
    by (simp add: getBoardById_def api_def axiosInstance_def request_interceptor_def
      waitForAvailableToken_def missing_server_def w0_def api_error_message_def
      string_of_nat.simps digit_char_def)
  have ws: "workspaceId (activeConfig client0) = Some ''ws1''"
    by (simp add: client0_def new_TrelloClient_def truthy_def)
  from setActiveBoard_effect [OF a] g1 ws
  have "r1 = Some (Inr ''board b1'')"
    "v1 = w0\<lparr>trace := [Admission, UpstreamCall \<lparr>verb = GET, url = ''/boards/b1'', payload = []\<rparr>],
         config_file := Some (Some ''b1'', Some ''ws1'')\<rparr>"
    by (simp_all add: w0_def)
  moreover have "c1 = client0\<lparr>activeConfig := (activeConfig client0)\<lparr>boardId := Some ''b1''\<rparr>\<rparr>"
    using a g1 by (simp add: setActiveBoard_def saveConfig_result w0_def)
  moreover from setActiveBoard_effect [OF b] g2
  have "r2 = Some (Inl (McpError InternalError
               ''Trello API Error: 404 Request failed with status code 404''
               (Some ''invalid id'')))" "c2 = client0"
     "v2 = w0\<lparr>trace := [Admission, UpstreamCall \<lparr>verb = GET, url = ''/boards/b1'', payload = []\<rparr>]\<rparr>"
    by simp_all
  ultimately show ?thesis using a b by simp
qed

section \<open>Rounding to a double\<close>

lemma bitlen_powi_bounds:
  assumes "0 < p"
  shows "(2::rat) powi (bitlen p - 1) \<le> of_int p" "of_int p < (2::rat) powi (bitlen p)"
proof -
  from assms have b1: "1 \<le> bitlen p"
    using bitlen_eq_zero_iff [of p] bitlen_nonneg [of p] by linarith
  from bitlen_bounds [OF assms]
  have lo: "2 ^ nat (bitlen p - 1) \<le> p" and hi: "p < 2 ^ nat (bitlen p)" by auto
  have "(2::rat) powi (bitlen p - 1) = of_int (2 ^ nat (bitlen p - 1))"
    using b1 by (simp add: power_int_def)
  also have "\<dots> \<le> of_int p" using lo by (simp only: of_int_le_iff)
  finally show "(2::rat) powi (bitlen p - 1) \<le> of_int p" .
  have "(of_int p :: rat) < of_int (2 ^ nat (bitlen p))" using hi by (simp only: of_int_less_iff)
  also have "\<dots> = (2::rat) powi (bitlen p)"
    using b1 by (simp add: power_int_def)
  finally show "of_int p < (2::rat) powi (bitlen p)" .
qed

lemma binary_exponent_bounds:
  assumes "0 < x"
  shows "2 powi (binary_exponent x) \<le> x" "x < 2 powi (binary_exponent x + 1)"
proof -
  obtain p q where pq: "quotient_of x = (p, q)" by (cases "quotient_of x")
  then have q: "0 < q" and x: "x = of_int p / of_int q"
    by (simp_all add: quotient_of_denom_pos quotient_of_div)
  from assms x q have p: "0 < p"
    by (simp add: zero_less_divide_iff)
  let ?d = "bitlen p - bitlen q"
  have qpos: "(0::rat) < of_int q" using q by simp
  have up: "x < 2 powi (?d + 1)"
  proof -
    have "of_int p < (2::rat) powi (bitlen p)" using p by (rule bitlen_powi_bounds)
    also have "\<dots> = 2 powi (?d + 1) * 2 powi (bitlen q - 1)"
      by (simp flip: power_int_add)
    also have "\<dots> \<le> 2 powi (?d + 1) * of_int q"
      using bitlen_powi_bounds(1) [OF q] by (intro mult_left_mono) auto
    finally show ?thesis using qpos by (simp add: x pos_divide_less_eq)
  qed
  have low: "2 powi (?d - 1) \<le> x"
  proof -
    have "2 powi (?d - 1) * of_int q \<le> 2 powi (?d - 1) * (2::rat) powi (bitlen q)"
      using bitlen_powi_bounds(2) [OF q] by (intro mult_left_mono) auto
    also have "\<dots> = 2 powi (bitlen p - 1)"
      by (simp flip: power_int_add)
    also have "\<dots> \<le> of_int p" using p by (rule bitlen_powi_bounds)
    finally show ?thesis using qpos by (simp add: x pos_le_divide_eq)
  qed
  show "2 powi (binary_exponent x) \<le> x"
    using low by (simp add: binary_exponent_def pq Let_def)
  show "x < 2 powi (binary_exponent x + 1)"
    using up by (auto simp: binary_exponent_def pq Let_def not_le)
qed


lemma round_half_even_error: "\<bar>of_int (round_half_even m) - m\<bar> \<le> 1 / 2"
proof -
  have "of_int \<lfloor>m\<rfloor> \<le> m" "m < of_int \<lfloor>m\<rfloor> + 1" by linarith+
  then show ?thesis
    by (auto simp: round_half_even_def Let_def abs_le_iff)
qed

lemma round_half_even_le: "m \<le> of_int K \<Longrightarrow> round_half_even m \<le> K"
proof -
  assume mK: "m \<le> of_int K"
  then have fl: "\<lfloor>m\<rfloor> \<le> K" by (simp add: floor_le_iff)
  show ?thesis
  proof (cases "\<lfloor>m\<rfloor> = K")
    case True
    with mK have "m = of_int \<lfloor>m\<rfloor>"
      by (metis of_int_floor_le order_antisym)
    then have "m - of_int \<lfloor>m\<rfloor> = 0" by simp
    then show ?thesis using True by (simp add: round_half_even_def Let_def)
  next
    case False
    with fl have "\<lfloor>m\<rfloor> + 1 \<le> K" by simp
    then show ?thesis by (auto simp: round_half_even_def Let_def)
  qed
qed

lemma round_half_even_ge: "of_int K \<le> m \<Longrightarrow> K \<le> round_half_even m"
proof -
  assume "of_int K \<le> m"
  then have "K \<le> \<lfloor>m\<rfloor>" by (simp add: le_floor_iff)
  then show ?thesis by (auto simp: round_half_even_def Let_def)
qed

lemma double_pos:
  assumes "0 < x"
  shows "double x =
    of_int (round_half_even (x * 2 powi (52 - binary_exponent x))) * 2 powi (binary_exponent x - 52)"
  using assms by (simp add: double_def Let_def)

lemma double_nonneg: "0 \<le> x \<Longrightarrow> 0 \<le> double x"
proof (cases "x = 0")
  case True
  then show ?thesis by (simp add: double_def)
next
  case False
  assume "0 \<le> x"
  with False have x: "0 < x" by simp
  have "(0::rat) \<le> x * 2 powi (52 - binary_exponent x)" using x by simp
  then have "of_int 0 \<le> x * 2 powi (52 - binary_exponent x)" by simp
  then have "0 \<le> round_half_even (x * 2 powi (52 - binary_exponent x))"
    by (rule round_half_even_ge)
  then show ?thesis using x by (simp add: double_pos)
qed

lemma double_le_int:
  assumes x: "0 < x" and b: "x \<le> of_int b" and small: "x < 2 ^ 53"
  shows "double x \<le> of_int b"
proof -
  let ?e = "binary_exponent x"
  have "2 powi ?e \<le> x" using x by (rule binary_exponent_bounds)
  with small have "(2::rat) powi ?e < 2 powi 53" by simp
  then have e: "?e < 53"
    using power_int_le_imp_less_exp [of "2::rat" ?e 53] by simp
  then have k: "(2::rat) powi (52 - ?e) = of_int (2 ^ nat (52 - ?e))"
    by (simp add: power_int_def)
  have "x * 2 powi (52 - ?e) \<le> of_int b * 2 powi (52 - ?e)"
    using b by (intro mult_right_mono) auto
  also have "\<dots> = of_int (b * 2 ^ nat (52 - ?e))" by (simp add: k)
  finally have "round_half_even (x * 2 powi (52 - ?e)) \<le> b * 2 ^ nat (52 - ?e)"
    by (rule round_half_even_le)
  then have "(of_int (round_half_even (x * 2 powi (52 - ?e))) :: rat)
      \<le> of_int (b * 2 ^ nat (52 - ?e))"
    by (simp only: of_int_le_iff)
  then have "of_int (round_half_even (x * 2 powi (52 - ?e))) * 2 powi (?e - 52)
      \<le> (of_int (b * 2 ^ nat (52 - ?e)) :: rat) * 2 powi (?e - 52)"
    by (intro mult_right_mono) auto
  also have "\<dots> = of_int b * (2 powi (52 - ?e) * 2 powi (?e - 52))"
    by (simp add: k)
  also have "\<dots> = of_int b"
    by (simp flip: power_int_add)
  finally show ?thesis using x by (simp add: double_pos)
qed

lemma double_error:
  assumes x: "0 < x"
  shows "\<bar>double x - x\<bar> \<le> x / 2 ^ 53"
proof -
  let ?e = "binary_exponent x"
  let ?m = "x * 2 powi (52 - ?e)"
  have lo: "2 powi ?e \<le> x" using x by (rule binary_exponent_bounds)
  have unscale: "?m * 2 powi (?e - 52) = x"
    by (simp add: mult.assoc flip: power_int_add)
  have "double x - x = of_int (round_half_even ?m) * 2 powi (?e - 52) - ?m * 2 powi (?e - 52)"
    using x by (simp only: double_pos unscale)
  then have "\<bar>double x - x\<bar> = \<bar>(of_int (round_half_even ?m) - ?m) * 2 powi (?e - 52)\<bar>"
    by (simp only: left_diff_distrib)
  also have "\<dots> = \<bar>of_int (round_half_even ?m) - ?m\<bar> * 2 powi (?e - 52)"
    by (simp add: abs_mult)
  also have "\<dots> \<le> 1 / 2 * 2 powi (?e - 52)"
    by (intro mult_right_mono round_half_even_error) auto
  also have "\<dots> = 2 powi ?e / 2 ^ 53"
    by (simp add: power_int_diff)
  also have "\<dots> \<le> x / 2 ^ 53"
    using lo by (simp add: divide_right_mono)
  finally show ?thesis .
qed


lemma double_unit_interval:
  assumes "0 \<le> x" "x \<le> 1"
  shows "0 \<le> double x" "double x \<le> 1"
proof -
  show "0 \<le> double x" using assms(1) by (rule double_nonneg)
  show "double x \<le> 1"
  proof (cases "x = 0")
    case True
    then show ?thesis by (simp add: double_def)
  next
    case False
    with assms have "0 < x" "x \<le> of_int 1" "x < 2 ^ 53" by auto
    then have "double x \<le> of_int 1" by (rule double_le_int)
    then show ?thesis by simp
  qed
qed

lemma double_percent_interval:
  assumes "0 \<le> y" "y \<le> 100"
  shows "0 \<le> double y" "double y \<le> 100"
proof -
  show "0 \<le> double y" using assms(1) by (rule double_nonneg)
  show "double y \<le> 100"
  proof (cases "y = 0")
    case True
    then show ?thesis by (simp add: double_def)
  next
    case False
    with assms have "0 < y" "y \<le> of_int 100" "y < 2 ^ 53" by auto
    then have "double y \<le> of_int 100" by (rule double_le_int)
    then show ?thesis by simp
  qed
qed

lemma percent_range:
  assumes "c \<le> t" "0 < t"
  shows "0 \<le> percent c t" "percent c t \<le> 100"
proof -
  let ?x = "of_nat c / of_nat t :: rat"
  have x: "0 \<le> ?x" "?x \<le> 1" using assms by simp_all
  have q: "0 \<le> double ?x" "double ?x \<le> 1" using x by (rule double_unit_interval)+
  then have y: "0 \<le> double ?x * 100" "double ?x * 100 \<le> 100" by simp_all
  have p: "0 \<le> double (double ?x * 100)" "double (double ?x * 100) \<le> 100"
    using y by (rule double_percent_interval)+
  show "0 \<le> percent c t" using p(1) by (simp add: percent_def Math_round_def)
  have "double (double ?x * 100) + 1 / 2 < of_int 101" using p(2) by simp
  then have "\<lfloor>double (double ?x * 100) + 1 / 2\<rfloor> < 101" by (simp only: floor_less_iff)
  then show "percent c t \<le> 100" by (simp add: percent_def Math_round_def)
qed

lemma percent_error:
  assumes "c \<le> t" "0 < t"
  shows "\<bar>double (double (of_nat c / of_nat t) * 100) - 100 * of_nat c / of_nat t\<bar>
           \<le> 200 / 2 ^ 53"
proof (cases "c = 0")
  case True
  then show ?thesis by (simp add: double_def)
next
  case False
  let ?x = "of_nat c / of_nat t :: rat"
  let ?q = "double ?x"
  let ?y = "?q * 100"
  have x: "0 < ?x" "?x \<le> 1" using assms False by simp_all
  have eq: "\<bar>?q - ?x\<bar> \<le> ?x / 2 ^ 53" using x(1) by (rule double_error)
  also have "\<dots> \<le> 1 / 2 ^ 53" using x(2) by (simp add: divide_right_mono)
  finally have eq1: "\<bar>?q - ?x\<bar> \<le> 1 / 2 ^ 53" .
  have "?x / 2 ^ 53 < ?x" using x(1) by simp
  with eq have qpos: "0 < ?q" by linarith
  have q1: "?q \<le> 1" using x by (intro double_unit_interval) auto
  have y: "0 < ?y" "?y \<le> 100" using qpos q1 by simp_all
  have "\<bar>double ?y - ?y\<bar> \<le> ?y / 2 ^ 53" using y(1) by (rule double_error)
  also have "\<dots> \<le> 100 / 2 ^ 53" using y(2) by (simp add: divide_right_mono)
  finally have ep: "\<bar>double ?y - ?y\<bar> \<le> 100 / 2 ^ 53" .
  have "\<bar>?y - 100 * ?x\<bar> = 100 * \<bar>?q - ?x\<bar>" by (simp add: abs_if)
  also have "\<dots> \<le> 100 * (1 / 2 ^ 53)" using eq1 by (intro mult_left_mono) auto
  finally have ey: "\<bar>?y - 100 * ?x\<bar> \<le> 100 / 2 ^ 53" by simp
  have "\<bar>double ?y - 100 * ?x\<bar> \<le> \<bar>double ?y - ?y\<bar> + \<bar>?y - 100 * ?x\<bar>" by linarith
  also have "\<dots> \<le> 100 / 2 ^ 53 + 100 / 2 ^ 53" using ep ey by (rule add_mono)
  finally show ?thesis by simp
qed

lemma floor_stable:
  fixes a b :: rat
  assumes "of_int n + d \<le> a" "a + d \<le> of_int n + 1" "\<bar>b - a\<bar> < d"
  shows "\<lfloor>b\<rfloor> = n"
proof -
  have "of_int n \<le> b" "b < of_int n + 1" using assms by linarith+
  then show ?thesis by (simp add: floor_unique)
qed

lemma percent_exact:
  assumes "c \<le> t" "0 < t" "t < 2 ^ 32" "\<not> (2 * t) dvd (200 * c + t)"
  shows "percent c t = round (100 * of_nat c / of_nat t :: rat)"
proof -
  let ?z = "100 * of_nat c / of_nat t :: rat"
  let ?N = "int (200 * c + t)" and ?D = "int (2 * t)"
  let ?p = "double (double (of_nat c / of_nat t) * 100)"
  have D: "0 < ?D" using assms(2) by simp
  have Dr: "(0::rat) < of_int ?D" using D by (simp only: of_int_0_less_iff)
  have half: "?z + 1 / 2 = of_int ?N / of_int ?D"
    using assms(2) by (simp add: field_simps)
  have nd: "?N mod ?D \<noteq> 0"
    using assms(4) by (metis int_dvd_int_iff mod_eq_0_iff_dvd)
  have r: "1 \<le> ?N mod ?D" "?N mod ?D + 1 \<le> ?D"
    using nd D pos_mod_bound [of ?D ?N] pos_mod_sign [of ?D ?N] by linarith+
  have split: "(of_int ?N :: rat) = of_int (?N div ?D) * of_int ?D + of_int (?N mod ?D)"
    by (metis of_int_add of_int_mult div_mult_mod_eq)
  have frac: "?z + 1 / 2 = of_int (?N div ?D) + of_int (?N mod ?D) / of_int ?D"
    unfolding half using Dr by (subst split) (simp add: add_divide_distrib)
  have lo: "of_int (?N div ?D) + 1 / of_int ?D \<le> ?z + 1 / 2"
    unfolding frac using r(1) Dr by (simp add: divide_right_mono)
  have "(of_int (?N mod ?D + 1) :: rat) \<le> of_int ?D"
    using r(2) by (simp only: of_int_le_iff)
  then have "(of_int (?N mod ?D) + 1 :: rat) \<le> of_int ?D" by simp
  then have "(of_int (?N mod ?D) + 1) / (of_int ?D :: rat) \<le> of_int ?D / of_int ?D"
    using Dr by (intro divide_right_mono) simp_all
  then have hi: "?z + 1 / 2 + 1 / of_int ?D \<le> of_int (?N div ?D) + 1"
    unfolding frac using Dr by (simp add: add_divide_distrib)
  have "?D < 2 ^ 33" using assms(3) by simp
  then have "(of_int ?D :: rat) < of_int (2 ^ 33)" by (simp only: of_int_less_iff)
  then have tb: "(of_int ?D :: rat) < 2 ^ 33" by simp
  have "(200 :: rat) / 2 ^ 53 < 1 / 2 ^ 33" by simp
  also have "\<dots> < 1 / of_int ?D"
    using tb Dr by (simp add: frac_less2)
  finally have small: "(200 :: rat) / 2 ^ 53 < 1 / of_int ?D" .
  have "\<bar>?p - ?z\<bar> \<le> 200 / 2 ^ 53" using assms(1,2) by (rule percent_error)
  with small have close: "\<bar>(?p + 1 / 2) - (?z + 1 / 2)\<bar> < 1 / of_int ?D" by simp
  have "\<lfloor>?p + 1 / 2\<rfloor> = ?N div ?D" using lo hi close by (rule floor_stable)
  moreover have "\<lfloor>?z + 1 / 2\<rfloor> = ?N div ?D"
    unfolding half by (simp only: floor_divide_of_int_eq)
  ultimately show ?thesis by (simp add: percent_def Math_round_def round_def)
qed

section \<open>percentComplete\<close>

lemma tie_iff:
  assumes "0 < t" "(2 * t) dvd (200 * c + t)"
  shows "frac (100 * of_nat c / of_nat t :: rat) = 1 / 2"
proof -
  from assms(2) obtain k where k: "200 * c + t = 2 * t * k" by (auto simp: dvd_def)
  with assms(1) have kpos: "0 < k" by (cases k) auto
  have "(of_nat (200 * c + t) :: rat) = of_nat (2 * t * k)" using k by simp
  then have "200 * (of_nat c :: rat) + of_nat t = 2 * of_nat t * of_nat k" by simp
  then have "100 * of_nat c / (of_nat t :: rat) = of_nat k - 1 / 2"
    using assms(1) by (simp add: field_simps)
  also have "\<dots> = of_int (int k - 1) + 1 / 2" by simp
  finally have z: "100 * of_nat c / (of_nat t :: rat) = of_int (int k - 1) + 1 / 2" .
  have "\<lfloor>of_int (int k - 1) + 1 / 2 :: rat\<rfloor> = int k - 1"
    by (rule floor_unique) simp_all
  then show ?thesis
    unfolding z frac_def by simp
qed

text \<open>
  C10, as the code has it: for a checklist of fewer than \<open>2^32\<close> items (the bound on the
  length of a JavaScript array), \<open>percentComplete\<close> is 0 when there are no items, so the
  division is guarded, and otherwise it is \<open>Math.round\<close> of the double-precision product
  \<open>(completedItems / totalItems) * 100\<close>. It is always an integer from 0 to 100. It equals
  \<open>round (100 * completedItems / totalItems)\<close> whenever that quotient is not exactly
  half-way between two integers. An item counts as completed iff its state is the string
  \<open>complete\<close>.
\<close>

theorem convertToCheckList_percentComplete:
  assumes "length (checkItems trelloChecklist) < 2 ^ 32"
  shows "let completedItems =
               length (filter (\<lambda>item. ci_state item = ''complete'') (checkItems trelloChecklist));
             totalItems = length (checkItems trelloChecklist);
             result = convertToCheckList trelloChecklist
         in (totalItems = 0 \<longrightarrow> percentComplete result = 0) \<and>
            0 \<le> percentComplete result \<and> percentComplete result \<le> 100 \<and>
            (0 < totalItems \<longrightarrow>
               percentComplete result =
                 Math_round (double (double (of_nat completedItems / of_nat totalItems) * 100))) \<and>
            (0 < totalItems \<and>
             frac (100 * of_nat completedItems / of_nat totalItems :: rat) \<noteq> 1 / 2 \<longrightarrow>
               percentComplete result =
                 round (100 * of_nat completedItems / of_nat totalItems :: rat)) \<and>
            map complete (items result) =
              map (\<lambda>item. ci_state item = ''complete'') (checkItems trelloChecklist)"
proof -
  let ?c = "length (filter (\<lambda>item. ci_state item = ''complete'') (checkItems trelloChecklist))"
  let ?t = "length (checkItems trelloChecklist)"
  have pc: "percentComplete (convertToCheckList trelloChecklist) =
      (if 0 < ?t then percent ?c ?t else 0)"
    by (simp add: convertToCheckList_def percent_def Let_def)
  have le: "?c \<le> ?t" by simp
  have range: "0 \<le> percentComplete (convertToCheckList trelloChecklist)"
    "percentComplete (convertToCheckList trelloChecklist) \<le> 100"
    using percent_range [OF le] by (simp_all add: pc)
  have exact: "percentComplete (convertToCheckList trelloChecklist) =
      round (100 * of_nat ?c / of_nat ?t :: rat)"
    if "0 < ?t" "frac (100 * of_nat ?c / of_nat ?t :: rat) \<noteq> 1 / 2"
  proof -
    from that have "\<not> (2 * ?t) dvd (200 * ?c + ?t)" using tie_iff by blast
    with le that(1) assms have "percent ?c ?t = round (100 * of_nat ?c / of_nat ?t :: rat)"
      by (intro percent_exact)
    with that(1) show ?thesis by (simp add: pc)
  qed
  have flags: "map complete (items (convertToCheckList trelloChecklist)) =
      map (\<lambda>item. ci_state item = ''complete'') (checkItems trelloChecklist)"
    by (simp add: convertToCheckList_def convertToCheckListItem_def Let_def comp_def)
  show ?thesis
    unfolding Let_def using pc range exact flags
    by (simp add: percent_def)
qed

text \<open>
  The claim C10 gives \<open>round (100 * completedItems / totalItems)\<close> for every checklist.
  With 23 of 40 items completed that is \<open>round 57.5 = 58\<close>; the code divides first, the
  double nearest to \<open>23 / 40\<close> lies below it, its product with 100 rounds to the double
  just below \<open>57.5\<close>, and \<open>percentComplete\<close> is 57.
\<close>

theorem percentComplete_tie_counterexample:
  "percentComplete (convertToCheckList checklist_23_of_40) = 57 \<and>
   round (100 * 23 / 40 :: rat) = 58"
  by code_simp

theorem convertToCheckList_percentComplete_witness:
  "length (checkItems checklist_2_of_3) < 2 ^ 32 \<and>
   percentComplete (convertToCheckList checklist_2_of_3) = 67 \<and>
   map complete (items (convertToCheckList checklist_2_of_3)) = [True, False, True]"
proof -
  have h: "length (checkItems checklist_2_of_3) < 2 ^ 32"
    by (simp add: checklist_2_of_3_def)
  have c: "length (filter (\<lambda>item. ci_state item = ''complete'') (checkItems checklist_2_of_3)) = 2"
    and t: "length (checkItems checklist_2_of_3) = 3"
    by (simp_all add: checklist_2_of_3_def done_item_def open_item_def)
  have fl: "\<lfloor>200 / 3 :: rat\<rfloor> = 66"
    by (rule floor_unique) simp_all
  have nt: "frac (100 * of_nat 2 / of_nat 3 :: rat) \<noteq> 1 / 2"
    by (simp add: frac_def fl)
  have "\<lfloor>200 / 3 + 1 / 2 :: rat\<rfloor> = 67"
    by (rule floor_unique) simp_all
  then have r: "round (100 * of_nat 2 / of_nat 3 :: rat) = 67"
    by (simp add: round_def)
  have s: "map (\<lambda>item. ci_state item = ''complete'') (checkItems checklist_2_of_3) =
      [True, False, True]"
    by (simp add: checklist_2_of_3_def done_item_def open_item_def)
  from convertToCheckList_percentComplete [OF h] nt r s h show ?thesis
    unfolding Let_def c t by simp
qed

section \<open>The quota invariant\<close>

lemma prune_fields [simp]:
  "capacity (prune now win) = capacity win" "duration (prune now win) = duration win"
  by (simp_all add: prune_def)

lemma tryConsume_fields [simp]:
  "capacity (snd (tryConsume now win)) = capacity win"
  "duration (snd (tryConsume now win)) = duration win"
  by (simp_all add: tryConsume_def Let_def split: list.splits)

lemma hasCapacity_iff:
  "hasCapacity now win \<longleftrightarrow>
     length (filter (\<lambda>ts. now < ts + duration win) (usageLog win)) < capacity win"
  by (simp add: hasCapacity_def tryConsume_def prune_def Let_def split: list.splits)

lemma tryConsume_admitted:
  "hasCapacity now win \<Longrightarrow>
   usageLog (snd (tryConsume now win)) =
     filter (\<lambda>ts. now < ts + duration win) (usageLog win) @ [now]"
  by (simp add: hasCapacity_iff) (simp add: tryConsume_def prune_def Let_def)

lemma agrees_later: "agrees win stamps t0 \<Longrightarrow> t0 \<le> t1 \<Longrightarrow> agrees win stamps t1"
  by (simp add: agrees_def)

lemma filter_live_conj:
  fixes now n :: nat
  assumes "now \<le> n"
  shows "filter (\<lambda>ts. now < ts + D \<and> n < ts + D) xs = filter (\<lambda>ts. n < ts + D) xs"
  using assms by (intro filter_cong) auto

lemma agrees_prune:
  assumes "agrees win stamps t0" "t0 \<le> now"
  shows "agrees (prune now win) stamps now"
  unfolding agrees_def
proof (intro allI impI)
  fix n assume "now \<le> n"
  then have "filter (\<lambda>ts. n < ts + duration (prune now win)) (usageLog (prune now win)) =
      filter (\<lambda>ts. n < ts + duration win) (usageLog win)"
    by (simp add: prune_def filter_live_conj)
  also have "\<dots> = filter (\<lambda>ts. n < ts + duration win) stamps"
    using assms \<open>now \<le> n\<close> by (simp add: agrees_def)
  finally show "filter (\<lambda>ts. n < ts + duration (prune now win)) (usageLog (prune now win)) =
      filter (\<lambda>ts. n < ts + duration (prune now win)) stamps" by simp
qed

lemma agrees_consume:
  assumes "agrees win stamps t0" "t0 \<le> now" "hasCapacity now win"
  shows "agrees (snd (tryConsume now win)) (stamps @ [now]) now"
  unfolding agrees_def
proof (intro allI impI)
  fix n assume n: "now \<le> n"
  have "filter (\<lambda>ts. n < ts + duration win) (usageLog (snd (tryConsume now win))) =
      filter (\<lambda>ts. n < ts + duration win) (usageLog win) @ filter (\<lambda>ts. n < ts + duration win) [now]"
    using n by (simp add: tryConsume_admitted [OF assms(3)] filter_live_conj)
  also have "filter (\<lambda>ts. n < ts + duration win) (usageLog win) =
      filter (\<lambda>ts. n < ts + duration win) stamps"
    using assms n by (simp add: agrees_def)
  finally show "filter (\<lambda>ts. n < ts + duration (snd (tryConsume now win)))
        (usageLog (snd (tryConsume now win))) =
      filter (\<lambda>ts. n < ts + duration (snd (tryConsume now win))) (stamps @ [now])"
    by simp
qed

lemma length_filter_imp:
  assumes "\<And>x. P x \<Longrightarrow> Q x"
  shows "length (filter P xs) \<le> length (filter Q xs)"
proof -
  have "filter P xs = filter P (filter Q xs)"
    using assms by (auto intro: filter_cong)
  then show ?thesis by (metis length_filter_le)
qed

lemma quota_consume:
  assumes ag: "agrees win stamps t0" and t0: "t0 \<le> now" and cap: "hasCapacity now win"
    and q: "within_quota (capacity win) (duration win) stamps"
  shows "within_quota (capacity win) (duration win) (stamps @ [now])"
  unfolding within_quota_def
proof
  fix t
  let ?D = "duration win"
  show "length (filter (\<lambda>ts. ts \<le> t \<and> t < ts + ?D) (stamps @ [now])) \<le> capacity win"
  proof (cases "now \<le> t")
    case False
    then show ?thesis using q by (simp add: within_quota_def)
  next
    case True
    have "length (filter (\<lambda>ts. ts \<le> t \<and> t < ts + ?D) stamps)
        \<le> length (filter (\<lambda>ts. now < ts + ?D) stamps)"
      using True by (intro length_filter_imp) auto
    also have "filter (\<lambda>ts. now < ts + ?D) stamps = filter (\<lambda>ts. now < ts + ?D) (usageLog win)"
      using ag t0 by (simp add: agrees_def)
    also have "length \<dots> < capacity win"
      using cap by (simp add: hasCapacity_iff)
    finally show ?thesis by simp
  qed
qed

lemma window_ok_prune:
  "window_ok win stamps t0 \<Longrightarrow> t0 \<le> now \<Longrightarrow> window_ok (prune now win) stamps now"
  by (auto simp: window_ok_def intro: agrees_prune)

lemma window_ok_consume:
  "window_ok win stamps t0 \<Longrightarrow> t0 \<le> now \<Longrightarrow> hasCapacity now win \<Longrightarrow>
   window_ok (snd (tryConsume now win)) (stamps @ [now]) now"
  by (auto simp: window_ok_def intro: agrees_consume quota_consume)

lemma window_ok_later:
  "window_ok win stamps t0 \<Longrightarrow> t0 \<le> t1 \<Longrightarrow> window_ok win stamps t1"
  by (auto simp: window_ok_def intro: agrees_later)

lemma tryAdmit_ok:
  assumes "limiter_ok lmt t0" "t0 \<le> now"
  shows "limiter_ok (snd (tryAdmit h now lmt)) now"
  using assms
  by (auto simp: limiter_ok_def tryAdmit_def intro: window_ok_prune window_ok_consume)

lemma limiter_ok_later: "limiter_ok lmt t0 \<Longrightarrow> t0 \<le> t1 \<Longrightarrow> limiter_ok lmt t1"
  by (auto simp: limiter_ok_def intro: window_ok_later)

lemma limiter_ok_frame:
  assumes "limiter_ok lmt t0"
    and "appWindow lmt' = appWindow lmt" "userWindow lmt' = userWindow lmt"
    and "admitted lmt' = admitted lmt"
  shows "limiter_ok lmt' t0"
  using assms by (simp add: limiter_ok_def)

lemma step_ok:
  assumes "limiter_ok lmt t0" "t0 \<le> time_of e"
  shows "limiter_ok (step e lmt) (time_of e)"
proof (cases e)
  case (Acquire now)
  let ?lim1 = "lmt\<lparr>nextHandle := Suc (nextHandle lmt)\<rparr>"
  have ok1: "limiter_ok ?lim1 t0" using assms(1) by (rule limiter_ok_frame) simp_all
  have ok2: "limiter_ok (snd (tryAdmit (nextHandle lmt) now ?lim1)) now"
    using ok1 assms(2) Acquire by (intro tryAdmit_ok) simp_all
  show ?thesis
  proof (cases "waitQueue lmt \<noteq> []")
    case True
    have "limiter_ok (step e lmt) t0"
      using ok1 by (rule limiter_ok_frame) (simp_all add: Acquire True Let_def)
    then show ?thesis using assms(2) by (rule limiter_ok_later)
  next
    case False
    obtain b lim2 where r: "tryAdmit (nextHandle lmt) now ?lim1 = (b, lim2)"
      by (cases "tryAdmit (nextHandle lmt) now ?lim1")
    with ok2 have "limiter_ok lim2 now" by simp
    then have "limiter_ok (step e lmt) now"
      by (rule limiter_ok_frame) (use False r Acquire in \<open>auto simp: Let_def split: bool.splits\<close>)
    then show ?thesis by (simp add: Acquire)
  qed
next
  case (Notify now)
  show ?thesis
  proof (cases "waitQueue lmt")
    case Nil
    then have "step e lmt = lmt" by (simp add: Notify)
    then show ?thesis using assms by (auto intro: limiter_ok_later)
  next
    case (Cons p ps)
    obtain b lim1 where r: "tryAdmit (handle p) now lmt = (b, lim1)"
      by (cases "tryAdmit (handle p) now lmt")
    have "limiter_ok (snd (tryAdmit (handle p) now lmt)) now"
      using assms Notify by (intro tryAdmit_ok) simp_all
    with r have "limiter_ok lim1 now" by simp
    then have "limiter_ok (step e lmt) now"
      by (rule limiter_ok_frame) (use Cons r Notify in \<open>auto simp: Let_def split: bool.splits\<close>)
    then show ?thesis by (simp add: Notify)
  qed
next
  case (Cancel h now)
  have "limiter_ok (step e lmt) t0"
    using assms(1) by (rule limiter_ok_frame) (simp_all add: Cancel)
  then show ?thesis using assms(2) by (rule limiter_ok_later)
qed

lemma run_ok:
  assumes "limiter_ok lmt t0" "sorted (map time_of events)" "\<forall>e\<in>set events. t0 \<le> time_of e"
  shows "\<exists>t1. limiter_ok (run events lmt) t1"
  using assms
proof (induction events arbitrary: lmt t0)
  case Nil
  then show ?case by auto
next
  case (Cons e es)
  have "t0 \<le> time_of e" using Cons.prems(3) by simp
  with Cons.prems(1) have "limiter_ok (step e lmt) (time_of e)" by (rule step_ok)
  moreover have "sorted (map time_of es)" "\<forall>x\<in>set es. time_of e \<le> time_of x"
    using Cons.prems(2) by simp_all
  ultimately show ?case using Cons.IH by simp
qed

lemma newLimiter_ok: "limiter_ok (newLimiter c1 d1 c2 d2) 0"
  by (simp add: limiter_ok_def window_ok_def agrees_def within_quota_def newLimiter_def)

lemma step_windows [simp]:
  "capacity (appWindow (step e lmt)) = capacity (appWindow lmt)"
  "duration (appWindow (step e lmt)) = duration (appWindow lmt)"
  "capacity (userWindow (step e lmt)) = capacity (userWindow lmt)"
  "duration (userWindow (step e lmt)) = duration (userWindow lmt)"
  by (cases e; simp add: tryAdmit_def Let_def split: list.splits prod.splits bool.splits if_splits; fastforce)+

lemma run_windows [simp]:
  "capacity (appWindow (run es lmt)) = capacity (appWindow lmt)"
  "duration (appWindow (run es lmt)) = duration (appWindow lmt)"
  "capacity (userWindow (run es lmt)) = capacity (userWindow lmt)"
  "duration (userWindow (run es lmt)) = duration (userWindow lmt)"
  by (induction es arbitrary: lmt) simp_all

text \<open>
  C2: for every list of events in time order (an interleaving of any number of
  \<open>acquire\<close> calls, notifications and cancellations), and for each of the two windows with
  its capacity \<open>C\<close> and duration \<open>D\<close>, the number of admissions whose times lie in the
  trailing interval \<open>(t - D, t]\<close> is at most \<open>C\<close>, for every \<open>t\<close>.
\<close>

theorem quota_invariant:
  assumes "sorted (map time_of events)"
  shows "(\<forall>t. length (filter (\<lambda>ts. ts \<le> t \<and> t < ts + appDuration)
                  (map snd (admitted (run events
                     (newLimiter appCapacity appDuration userCapacity userDuration)))))
               \<le> appCapacity) \<and>
         (\<forall>t. length (filter (\<lambda>ts. ts \<le> t \<and> t < ts + userDuration)
                  (map snd (admitted (run events
                     (newLimiter appCapacity appDuration userCapacity userDuration)))))
               \<le> userCapacity)"
proof -
  let ?init = "newLimiter appCapacity appDuration userCapacity userDuration"
  have "\<exists>t1. limiter_ok (run events ?init) t1"
    using newLimiter_ok assms by (rule run_ok) simp
  then obtain t1 where "limiter_ok (run events ?init) t1" ..
  then have "within_quota (capacity (appWindow (run events ?init)))
        (duration (appWindow (run events ?init))) (map snd (admitted (run events ?init)))"
    and "within_quota (capacity (userWindow (run events ?init)))
        (duration (userWindow (run events ?init))) (map snd (admitted (run events ?init)))"
    by (simp_all add: limiter_ok_def window_ok_def)
  then show ?thesis
    by (simp add: within_quota_def newLimiter_def)
qed

lemma six_callers_run:
  "admitted (run six_callers (newLimiter 5 10000 300 10000)) =
     [(0, 0), (1, 0), (2, 0), (3, 0), (4, 0), (5, 10000)]"
  by (simp add: six_callers_def newLimiter_def tryAdmit_def hasCapacity_def tryConsume_def
      prune_def Let_def)

theorem quota_invariant_witness:
  "sorted (map time_of six_callers) \<and>
   map snd (admitted (run six_callers (newLimiter 5 10000 300 10000))) =
     [0, 0, 0, 0, 0, 10000] \<and>
   (\<forall>t. length (filter (\<lambda>ts. ts \<le> t \<and> t < ts + 10000) [0, 0, 0, 0, 0, 10000 :: nat]) \<le> 5)"
proof -
  have s: "sorted (map time_of six_callers)"
    by (simp add: six_callers_def)
  have r: "map snd (admitted (run six_callers (newLimiter 5 10000 300 10000))) =
     [0, 0, 0, 0, 0, 10000]"
    by (simp add: six_callers_run)
  from quota_invariant [OF s, where appDuration = 10000 and appCapacity = 5
      and userDuration = 10000 and userCapacity = 300]
  have "\<forall>t. length (filter (\<lambda>ts. ts \<le> t \<and> t < ts + 10000)
               [0, 0, 0, 0, 0, 10000 :: nat]) \<le> 5"
    unfolding r by (rule conjunct1)
  with s r show ?thesis by (intro conjI)
qed

section \<open>FIFO fairness\<close>





lemma tryAdmit_frame [simp]:
  "waitQueue (snd (tryAdmit h now lmt)) = waitQueue lmt"
  "nextHandle (snd (tryAdmit h now lmt)) = nextHandle lmt"
  "suspended (snd (tryAdmit h now lmt)) = suspended lmt"
  "cancelled (snd (tryAdmit h now lmt)) = cancelled lmt"
  "admitted (snd (tryAdmit h now lmt)) =
     (if fst (tryAdmit h now lmt) then admitted lmt @ [(h, now)] else admitted lmt)"
  by (simp_all add: tryAdmit_def)














end
